theory Spec2Isabelle
  imports Main
begin

section \<open>The asynchronous progress UI of the Kyma CLI (package asyncui)\<close>

text \<open>
  The package renders installation progress on the terminal. A consumer goroutine
  launched by \<open>Start\<close> ranges over an unbuffered channel of \<open>ProcessUpdate\<close> values
  and turns each one into calls on a \<open>StepFactory\<close> and on the steps it hands out;
  errors of the rendering go to the optional channel \<open>Errors\<close>.
\<close>

subsection \<open>Data of the deployment engine\<close>

text \<open>
  \<open>deployment.ProcessEvent\<close>, \<open>deployment.InstallationPhase\<close> and the component
  status are string types of the engine. The code compares them with named constants
  only; every other raw value is kept with its string.
\<close>

datatype ProcessEvent =
    ProcessStart
  | ProcessRunning
  | ProcessFinished
  | OtherEvent string

datatype InstallationPhase =
    InstallPreRequisites
  | UninstallPreRequisites
  | InstallComponents
  | UninstallComponents
  | OtherPhase string

datatype ComponentStatus =
    StatusError
  | OtherStatus string

record KymaComponent =
  Name :: string
  Status :: ComponentStatus

record ProcessUpdate =
  Event :: ProcessEvent
  Phase :: InstallationPhase
  Component :: KymaComponent

subsection \<open>Steps, the step factory and errors\<close>

text \<open>
  A \<open>step.Step\<close> is an opaque handle. The handle of a step is the number of steps the
  factory had created before it. Everything the controller does to the terminal is a
  call of \<open>NewStep\<close> on the factory or of \<open>Success\<close> / \<open>Failure\<close> on a step; the
  terminal is the list of these calls in the order they were made.
\<close>

type_synonym Step = nat

datatype ui_call =
    NewStep string
  | Success Step
  | Failure Step

fun is_NewStep :: "ui_call \<Rightarrow> bool" where
  "is_NewStep (NewStep _) = True"
| "is_NewStep _ = False"

definition steps_created :: "ui_call list \<Rightarrow> nat" where
  "steps_created cs = length (filter is_NewStep cs)"

text \<open>The four values built by \<open>fmt.Errorf\<close>, with the arguments of the format.\<close>

datatype error =
    StartStepExists InstallationPhase
    \<comment> \<open>Illegal state: start-step for installation phase '%s' already exists\<close>
  | StepDoesNotExist InstallationPhase
    \<comment> \<open>Illegal state: step for installation phase '%s' does not exist\<close>
  | PhaseFailed InstallationPhase ProcessEvent
    \<comment> \<open>Deployment phase '%s' failed: %s\<close>
  | ComponentFailed string
    \<comment> \<open>Deployment of component '%s' failed\<close>

type_synonym steps_map = "InstallationPhase \<rightharpoonup> Step"

definition deployPrerequisitesPhaseMsg :: string where
  "deployPrerequisitesPhaseMsg = ''Deploying pre-requisites''"

definition undeployPrerequisitesPhaseMsg :: string where
  "undeployPrerequisitesPhaseMsg = ''Undeploying pre-requisites''"

definition deployComponentsPhaseMsg :: string where
  "deployComponentsPhaseMsg = ''Deploying Kyma''"

definition undeployComponentsPhaseMsg :: string where
  "undeployComponentsPhaseMsg = ''Undeploying Kyma''"

definition deployComponentMsg :: "string \<Rightarrow> string" where
  "deployComponentMsg name = ''Deploying component '' @ [CHR 0x27] @ name @ [CHR 0x27]"

subsection \<open>The two renderers\<close>

text \<open>
  Both renderers take the update, the map \<open>ongoingSteps\<close> (passed by pointer in the
  source, returned here) and the terminal, and return the error (\<open>None\<close> for nil).
\<close>

fun stepMsg :: "InstallationPhase \<Rightarrow> string" where
  "stepMsg InstallPreRequisites = deployPrerequisitesPhaseMsg"
| "stepMsg UninstallPreRequisites = undeployPrerequisitesPhaseMsg"
| "stepMsg InstallComponents = deployComponentsPhaseMsg"
| "stepMsg UninstallComponents = undeployComponentsPhaseMsg"
| "stepMsg (OtherPhase _) = []"

definition renderStartEvent ::
  "ProcessUpdate \<Rightarrow> steps_map \<Rightarrow> ui_call list \<Rightarrow> error option \<times> steps_map \<times> ui_call list" where
  "renderStartEvent procUpdEvent ongoing term =
     (case ongoing (Phase procUpdEvent) of
        Some _ \<Rightarrow> (Some (StartStepExists (Phase procUpdEvent)), ongoing, term)
      | None \<Rightarrow>
          (None,
           ongoing(Phase procUpdEvent \<mapsto> steps_created term),
           term @ [NewStep (stepMsg (Phase procUpdEvent))]))"

definition renderStopEvent ::
  "ProcessUpdate \<Rightarrow> steps_map \<Rightarrow> ui_call list \<Rightarrow> error option \<times> steps_map \<times> ui_call list" where
  "renderStopEvent procUpdEvent ongoing term =
     (case ongoing (Phase procUpdEvent) of
        None \<Rightarrow> (Some (StepDoesNotExist (Phase procUpdEvent)), ongoing, term)
      | Some s \<Rightarrow>
          (let comp = Component procUpdEvent;
               event = Event procUpdEvent;
               installPhase = Phase procUpdEvent
           in if Name comp = [] then
                (if event = ProcessFinished then (None, ongoing, term @ [Success s])
                 else (Some (PhaseFailed installPhase event), ongoing, term @ [Failure s]))
              else
                (let step = steps_created term;
                     term' = term @ [NewStep (deployComponentMsg (Name comp))]
                 in if Status comp = StatusError
                    then (Some (ComponentFailed (Name comp)), ongoing, term' @ [Failure step])
                    else (None, ongoing, term' @ [Success step]))))"

subsection \<open>The consumer loop\<close>

text \<open>
  The state the goroutine works on: its local map, the terminal behind the step
  factory, and the channel \<open>Errors\<close> (\<open>None\<close> when nil, otherwise the errors handed
  to the caller so far; the caller is taken to receive every error it is sent).
\<close>

record loop =
  ongoingSteps :: steps_map
  calls :: "ui_call list"
  errs :: "error list option"

definition sendError :: "error option \<Rightarrow> error list option \<Rightarrow> error list option" where
  "sendError err sink =
     (case err of
        None \<Rightarrow> sink
      | Some e \<Rightarrow> (case sink of None \<Rightarrow> None | Some es \<Rightarrow> Some (es @ [e])))"

definition rendered ::
  "loop \<Rightarrow> error option \<times> steps_map \<times> ui_call list \<Rightarrow> loop" where
  "rendered st r =
     (case r of (err, ongoing, term) \<Rightarrow>
        \<lparr>ongoingSteps = ongoing, calls = term, errs = sendError err (errs st)\<rparr>)"

text \<open>One iteration of \<open>for procUpdateEvent := range ui.updates\<close>.\<close>

definition loop_body :: "ProcessUpdate \<Rightarrow> loop \<Rightarrow> loop" where
  "loop_body procUpdateEvent st =
     (case Event procUpdateEvent of
        ProcessRunning \<Rightarrow>
          (if Name (Component procUpdateEvent) \<noteq> []
           then rendered st (renderStopEvent procUpdateEvent (ongoingSteps st) (calls st))
           else st)
      | ProcessStart \<Rightarrow>
          rendered st (renderStartEvent procUpdateEvent (ongoingSteps st) (calls st))
      | _ \<Rightarrow>
          rendered st (renderStopEvent procUpdateEvent (ongoingSteps st) (calls st)))"

fun consume :: "ProcessUpdate list \<Rightarrow> loop \<Rightarrow> loop" where
  "consume [] st = st"
| "consume (u # us) st = consume us (loop_body u st)"

text \<open>The loop of a controller that has rendered nothing yet.\<close>

definition fresh :: "error list option \<Rightarrow> loop" where
  "fresh sink = \<lparr>ongoingSteps = Map.empty, calls = [], errs = sink\<rparr>"

text \<open>Updates as the engine builds them: about a phase, or about one component.\<close>

definition phaseUpdate :: "ProcessEvent \<Rightarrow> InstallationPhase \<Rightarrow> ProcessUpdate" where
  "phaseUpdate e p = \<lparr>Event = e, Phase = p, Component = \<lparr>Name = [], Status = OtherStatus []\<rparr>\<rparr>"

definition componentUpdate ::
  "ProcessEvent \<Rightarrow> InstallationPhase \<Rightarrow> string \<Rightarrow> ComponentStatus \<Rightarrow> ProcessUpdate" where
  "componentUpdate e p n s = \<lparr>Event = e, Phase = p, Component = \<lparr>Name = n, Status = s\<rparr>\<rparr>"

subsection \<open>The controller: Start, Stop and the producer's send\<close>

text \<open>
  A call on the controller returns, panics, or blocks for ever; each outcome carries
  the controller as the call leaves it.
\<close>

datatype 'a outcome =
    Returns 'a
  | Panics string 'a
  | Blocks 'a

fun returned :: "'a outcome \<Rightarrow> 'a option" where
  "returned (Returns x) = Some x"
| "returned _ = None"

fun and_then :: "'a outcome \<Rightarrow> ('a \<Rightarrow> 'a outcome) \<Rightarrow> 'a outcome" where
  "and_then (Returns x) f = f x"
| "and_then (Panics m x) f = Panics m x"
| "and_then (Blocks x) f = Blocks x"

text \<open>
  A goroutine launched by \<open>Start\<close>. Its closure reads the fields of the controller
  when it runs, not when it is launched: \<open>cancels\<close> is the context whose cancel it
  has deferred and \<open>serves\<close> the channel it ranges over, \<open>None\<close> as long as it has
  not reached \<open>defer ui.cancel()\<close> or \<open>range ui.updates\<close>. The channel is
  unbuffered: a send completes when a goroutine has taken the update, which it holds
  in \<open>received\<close> until it has rendered it. \<open>steps\<close> is its local map
  \<open>ongoingSteps\<close>. A goroutine is \<open>stuck\<close> when it waits for ever in
  \<open>ui.Errors <- err\<close>, and \<open>exited\<close> when its loop has ended and the deferred
  cancel has run.
\<close>

record goroutine =
  cancels :: "nat option"
  serves :: "nat option"
  received :: "ProcessUpdate option"
  steps :: steps_map
  stuck :: bool
  exited :: bool

text \<open>
  The struct \<open>AsyncUI\<close> with what its fields point to. \<open>Errors\<close> is as in the loop,
  and \<open>reader\<close> tells whether the caller receives from it: without a reader a send on
  it never completes. \<open>terminal\<close> stands for the step factory. \<open>updates\<close> and
  \<open>ctxt\<close> (the field \<open>context\<close> with its \<open>cancel\<close>) are handles into \<open>chans\<close>
  (which channels are closed) and \<open>ctxs\<close> (which contexts are done), \<open>None\<close> for
  nil. The mutex is held for the whole of \<open>Stop\<close>; the calls of the caller are
  sequential, so it never contends.
\<close>

record AsyncUI =
  Errors :: "error list option"
  reader :: bool
  terminal :: "ui_call list"
  ctxt :: "nat option"
  updates :: "nat option"
  stopped :: bool
  chans :: "bool list"
  ctxs :: "bool list"
  goroutines :: "goroutine list"

text \<open>The zero value, as \<open>asyncui.AsyncUI{StepFactory: f, Errors: sink}\<close> makes it.\<close>

definition new_ui :: "error list option \<Rightarrow> bool \<Rightarrow> AsyncUI" where
  "new_ui sink r =
     \<lparr>Errors = sink, reader = r, terminal = [], ctxt = None, updates = None,
      stopped = False, chans = [], ctxs = [], goroutines = []\<rparr>"

definition view :: "AsyncUI \<Rightarrow> goroutine \<Rightarrow> loop" where
  "view ui g = \<lparr>ongoingSteps = steps g, calls = terminal ui, errs = Errors ui\<rparr>"

text \<open>
  \<open>Start\<close> makes the channel and the context, stores them in the controller, launches
  the goroutine and returns the channel. It has no other result and no guard.
\<close>

definition Start :: "AsyncUI \<Rightarrow> nat \<times> AsyncUI" where
  "Start ui =
     (let k = length (chans ui); c = length (ctxs ui)
      in (k, ui\<lparr>updates := Some k, ctxt := Some c,
                chans := chans ui @ [False], ctxs := ctxs ui @ [False],
                goroutines := goroutines ui @
                  [\<lparr>cancels = None, serves = None, received = None, steps = Map.empty,
                    stuck = False, exited = False\<rparr>]\<rparr>))"

text \<open>Goroutine \<open>j\<close> executes \<open>defer ui.cancel()\<close>: the cancel is read now.\<close>

definition defer_cancel :: "nat \<Rightarrow> AsyncUI \<Rightarrow> AsyncUI" where
  "defer_cancel j ui =
     (if j < length (goroutines ui) \<and> cancels (goroutines ui ! j) = None
      then ui\<lparr>goroutines := (goroutines ui)[j := (goroutines ui ! j)\<lparr>cancels := ctxt ui\<rparr>]\<rparr>
      else ui)"

text \<open>Goroutine \<open>j\<close> enters \<open>for ... := range ui.updates\<close>: the channel is read now.\<close>

definition range_updates :: "nat \<Rightarrow> AsyncUI \<Rightarrow> AsyncUI" where
  "range_updates j ui =
     (if j < length (goroutines ui) \<and> serves (goroutines ui ! j) = None
      then ui\<lparr>goroutines := (goroutines ui)[j := (goroutines ui ! j)\<lparr>serves := updates ui\<rparr>]\<rparr>
      else ui)"

text \<open>
  Goroutine \<open>j\<close> renders the update it holds. The calls on the terminal and the map
  are made; when the loop body sends an error and nobody receives from \<open>Errors\<close>, the
  goroutine stays in that send.
\<close>

definition render_received :: "nat \<Rightarrow> AsyncUI \<Rightarrow> AsyncUI" where
  "render_received j ui =
     (let g = goroutines ui ! j
      in case received g of
           None \<Rightarrow> ui
         | Some u \<Rightarrow>
             (let st = loop_body u (view ui g)
              in if errs st \<noteq> Errors ui \<and> \<not> reader ui
                 then ui\<lparr>terminal := calls st,
                         goroutines := (goroutines ui)
                           [j := g\<lparr>received := None, steps := ongoingSteps st, stuck := True\<rparr>]\<rparr>
                 else ui\<lparr>Errors := errs st, terminal := calls st,
                         goroutines := (goroutines ui)
                           [j := g\<lparr>received := None, steps := ongoingSteps st\<rparr>]\<rparr>))"

text \<open>
  Goroutine \<open>j\<close>, back at the receive, finds its channel closed: the loop ends and the
  deferred cancel makes its context done.
\<close>

definition leave_loop :: "nat \<Rightarrow> AsyncUI \<Rightarrow> AsyncUI" where
  "leave_loop j ui =
     (let g = goroutines ui ! j
      in case serves g of
           None \<Rightarrow> ui
         | Some ch \<Rightarrow>
             if ch < length (chans ui) \<and> chans ui ! ch \<and> \<not> stuck g
             then ui\<lparr>ctxs := (case cancels g of
                                None \<Rightarrow> ctxs ui
                              | Some c \<Rightarrow> (ctxs ui)[c := True]),
                     goroutines := (goroutines ui)[j := g\<lparr>exited := True\<rparr>]\<rparr>
             else ui)"

text \<open>Goroutine \<open>j\<close> is scheduled and runs as far as it can.\<close>

definition run :: "nat \<Rightarrow> AsyncUI \<Rightarrow> AsyncUI" where
  "run j ui =
     (if j < length (goroutines ui) \<and> \<not> exited (goroutines ui ! j)
         \<and> \<not> stuck (goroutines ui ! j)
      then leave_loop j (render_received j (range_updates j (defer_cancel j ui)))
      else ui)"

text \<open>
  The producer's \<open>ch <- u\<close>, taken by goroutine \<open>j\<close>, which first runs up to the
  receive. The send blocks when \<open>j\<close> does not get there or ranges over another
  channel. A handle that names no channel stands for the nil channel.
\<close>

definition send :: "nat \<Rightarrow> ProcessUpdate \<Rightarrow> nat \<Rightarrow> AsyncUI \<Rightarrow> AsyncUI outcome" where
  "send ch u j ui =
     (if length (chans ui) \<le> ch then Blocks ui
      else if chans ui ! ch then Panics ''send on closed channel'' ui
      else
        (let ui' = run j ui
         in if j < length (goroutines ui') \<and> serves (goroutines ui' ! j) = Some ch
               \<and> \<not> stuck (goroutines ui' ! j) \<and> \<not> exited (goroutines ui' ! j)
            then Returns (ui'\<lparr>goroutines :=
                           (goroutines ui')[j := (goroutines ui' ! j)\<lparr>received := Some u\<rparr>]\<rparr>)
            else Blocks ui'))"

fun submit :: "nat \<Rightarrow> nat \<Rightarrow> ProcessUpdate list \<Rightarrow> AsyncUI \<Rightarrow> AsyncUI outcome" where
  "submit ch j [] ui = Returns ui"
| "submit ch j (u # us) ui = and_then (send ch u j ui) (submit ch j us)"

text \<open>
  \<open><-ui.context.Done()\<close>. While the caller waits the goroutines of the list run, one
  after the other; the wait ends as soon as the context is done, and never when it is
  not done after all of them have run.
\<close>

fun wait_done :: "nat list \<Rightarrow> AsyncUI \<Rightarrow> AsyncUI outcome" where
  "wait_done [] ui =
     (case ctxt ui of
        None \<Rightarrow> Panics ''nil pointer dereference'' ui
      | Some c \<Rightarrow> if c < length (ctxs ui) \<and> ctxs ui ! c then Returns ui else Blocks ui)"
| "wait_done (j # js) ui =
     (case ctxt ui of
        None \<Rightarrow> Panics ''nil pointer dereference'' ui
      | Some c \<Rightarrow>
          if c < length (ctxs ui) \<and> ctxs ui ! c then Returns ui
          else wait_done js (run j ui))"

primrec newest_first :: "nat \<Rightarrow> nat list" where
  "newest_first 0 = []"
| "newest_first (Suc n) = n # newest_first n"

text \<open>
  \<open>Stop\<close>. During its wait every goroutine gets to run once, the most recently
  launched first.
\<close>

definition Stop :: "AsyncUI \<Rightarrow> AsyncUI outcome" where
  "Stop ui =
     (if stopped ui then Returns ui
      else
        (case updates ui of
           None \<Rightarrow> Panics ''close of nil channel'' ui
         | Some ch \<Rightarrow>
             if length (chans ui) \<le> ch then Panics ''close of nil channel'' ui
             else if chans ui ! ch then Panics ''close of closed channel'' ui
             else
               wait_done (newest_first (length (goroutines ui)))
                 (ui\<lparr>chans := (chans ui)[ch := True], stopped := True\<rparr>)))"

text \<open>
  A whole session of one caller with a controller started once: make the controller,
  start it, submit the updates, stop it. The goroutine renders as late as it may.
\<close>

definition session ::
  "error list option \<Rightarrow> bool \<Rightarrow> ProcessUpdate list \<Rightarrow> AsyncUI outcome" where
  "session sink r us =
     (case Start (new_ui sink r) of
        (ch, ui) \<Rightarrow> and_then (submit ch 0 us ui) Stop)"

text \<open>The goroutines that are still in their loop.\<close>

definition running :: "AsyncUI \<Rightarrow> nat" where
  "running ui = length (filter (\<lambda>g. \<not> exited g) (goroutines ui))"

text \<open>The goroutines that hold an update they have not rendered yet.\<close>

definition pending :: "AsyncUI \<Rightarrow> nat" where
  "pending ui = length (filter (\<lambda>g. received g \<noteq> None) (goroutines ui))"

text \<open>
  What goroutine \<open>j\<close> will have made of the terminal once it has rendered the update
  it holds.
\<close>

definition settled :: "nat \<Rightarrow> AsyncUI \<Rightarrow> loop" where
  "settled j ui =
     (let g = goroutines ui ! j
      in case received g of
           None \<Rightarrow> view ui g
         | Some u \<Rightarrow> loop_body u (view ui g))"

subsection \<open>Notions used in the properties\<close>

text \<open>Every step in the map has been created: its handle is below the factory's count.\<close>

definition handles_bounded :: "loop \<Rightarrow> bool" where
  "handles_bounded st \<longleftrightarrow>
     (\<forall>P s. ongoingSteps st P = Some s \<longrightarrow> s < steps_created (calls st))"

text \<open>
  The number of steps the loop creates while it processes the \<open>ProcessStart\<close> updates
  of phase \<open>P\<close> in a sequence, read off the terminal.
\<close>

fun phase_steps :: "InstallationPhase \<Rightarrow> ProcessUpdate list \<Rightarrow> loop \<Rightarrow> nat" where
  "phase_steps P [] st = 0"
| "phase_steps P (u # us) st =
     (if Event u = ProcessStart \<and> Phase u = P
      then steps_created (calls (loop_body u st)) - steps_created (calls st)
      else 0)
     + phase_steps P us (loop_body u st)"

text \<open>
  A controller started once: one goroutine, neither gone nor stuck, that has read
  nothing but the one channel and the one context; \<open>serving\<close> when the channel is
  still open and \<open>Stop\<close> has not been called.
\<close>

definition sole :: "AsyncUI \<Rightarrow> bool" where
  "sole ui \<longleftrightarrow>
     (\<exists>g. goroutines ui = [g] \<and> \<not> exited g \<and> \<not> stuck g
        \<and> (cancels g = None \<or> cancels g = Some 0)
        \<and> (serves g = None \<or> serves g = Some 0))
     \<and> length (chans ui) = 1 \<and> ctxs ui = [False]
     \<and> updates ui = Some 0 \<and> ctxt ui = Some 0"

definition serving :: "AsyncUI \<Rightarrow> bool" where
  "serving ui \<longleftrightarrow> sole ui \<and> chans ui = [False] \<and> \<not> stopped ui"

lemmas render_defs = loop_body_def renderStartEvent_def renderStopEvent_def rendered_def
  sendError_def fresh_def phaseUpdate_def componentUpdate_def deployComponentsPhaseMsg_def
  deployComponentMsg_def

lemmas ui_defs = session_def Start_def Stop_def send_def render_received_def
  defer_cancel_def range_updates_def leave_loop_def run_def
  new_ui_def view_def running_def pending_def settled_def

section \<open>Facts about the loop\<close>

lemma steps_created_append [simp]:
  "steps_created (xs @ ys) = steps_created xs + steps_created ys"
  by (simp add: steps_created_def)

lemma steps_created_simps [simp]:
  "steps_created [] = 0"
  "steps_created (NewStep m # cs) = Suc (steps_created cs)"
  "steps_created (Success k # cs) = steps_created cs"
  "steps_created (Failure k # cs) = steps_created cs"
  by (simp_all add: steps_created_def)

lemma loop_eta:
  "\<lparr>ongoingSteps = ongoingSteps x, calls = calls x, errs = errs x\<rparr> = (x::loop)"
  by simp

lemma renderStartEvent_keeps:
  "m P = Some s \<Longrightarrow> fst (snd (renderStartEvent u m term)) P = Some s"
  by (auto simp: renderStartEvent_def split: option.splits)

lemma renderStopEvent_map:
  "fst (snd (renderStopEvent u m term)) = m"
  by (auto simp: renderStopEvent_def Let_def split: option.splits)

lemma rendered_fields [simp]:
  "ongoingSteps (rendered st r) = fst (snd r)"
  "calls (rendered st r) = snd (snd r)"
  "errs (rendered st r) = sendError (fst r) (errs st)"
  by (simp_all add: rendered_def split: prod.splits)

text \<open>No update removes or replaces an entry of the map.\<close>

lemma loop_body_keeps_entry:
  "ongoingSteps st P = Some s \<Longrightarrow> ongoingSteps (loop_body u st) P = Some s"
  by (auto simp: loop_body_def renderStartEvent_keeps renderStopEvent_map
      split: ProcessEvent.splits)

lemma consume_keeps_entry:
  "ongoingSteps st P = Some s \<Longrightarrow> ongoingSteps (consume us st) P = Some s"
  by (induction us arbitrary: st) (simp_all add: loop_body_keeps_entry)

lemma handles_bounded_loop_body:
  "handles_bounded st \<Longrightarrow> handles_bounded (loop_body u st)"
  unfolding handles_bounded_def
  by (auto simp: loop_body_def renderStartEvent_def renderStopEvent_def Let_def
      split: ProcessEvent.splits option.splits if_splits) (force simp: less_Suc_eq)+

lemma handles_bounded_consume:
  "handles_bounded st \<Longrightarrow> handles_bounded (consume us st)"
  by (induction us arbitrary: st) (simp_all add: handles_bounded_loop_body)

lemma handles_bounded_fresh: "handles_bounded (consume us (fresh sink))"
  by (rule handles_bounded_consume) (simp add: handles_bounded_def fresh_def)

text \<open>One update creates at most one step.\<close>

lemma loop_body_one_step:
  "steps_created (calls (loop_body u st)) \<le> Suc (steps_created (calls st))"
  by (auto simp: loop_body_def renderStartEvent_def renderStopEvent_def Let_def
      split: ProcessEvent.splits option.splits)

text \<open>A start of a phase that is in the map creates nothing; a phase gets one step at most.\<close>

lemma start_recorded_same_calls:
  "Event u = ProcessStart \<Longrightarrow> ongoingSteps st (Phase u) = Some s \<Longrightarrow>
     calls (loop_body u st) = calls st"
  by (simp add: loop_body_def renderStartEvent_def)

lemma start_unrecorded_records:
  "Event u = ProcessStart \<Longrightarrow> ongoingSteps st (Phase u) = None \<Longrightarrow>
     ongoingSteps (loop_body u st) (Phase u) = Some (steps_created (calls st))"
  by (simp add: loop_body_def renderStartEvent_def)

lemma phase_steps_recorded:
  "ongoingSteps st P = Some s \<Longrightarrow> phase_steps P us st = 0"
proof (induction us arbitrary: st)
  case Nil
  then show ?case by simp
next
  case (Cons u us)
  have "phase_steps P us (loop_body u st) = 0"
    using Cons.prems by (intro Cons.IH loop_body_keeps_entry)
  then show ?case
    using Cons.prems by (auto simp: start_recorded_same_calls)
qed

lemma phase_steps_le_one: "phase_steps P us st \<le> 1"
proof (induction us arbitrary: st)
  case Nil
  then show ?case by simp
next
  case (Cons u us)
  show ?case
  proof (cases "Event u = ProcessStart \<and> Phase u = P")
    case False
    then show ?thesis using Cons.IH[of "loop_body u st"] by auto
  next
    case True
    show ?thesis
    proof (cases "ongoingSteps st P")
      case (Some s)
      then have "phase_steps P (u # us) st = 0"
        by (rule phase_steps_recorded)
      then show ?thesis by simp
    next
      case None
      with True have "ongoingSteps (loop_body u st) P = Some (steps_created (calls st))"
        using start_unrecorded_records[of u st] by simp
      then have "phase_steps P us (loop_body u st) = 0"
        by (rule phase_steps_recorded)
      moreover have "steps_created (calls (loop_body u st)) - steps_created (calls st) \<le> 1"
        using loop_body_one_step[of u st] by simp
      ultimately show ?thesis by simp
    qed
  qed
qed

text \<open>Without an error channel nothing is ever sent.\<close>

lemma errs_loop_body_None: "errs st = None \<Longrightarrow> errs (loop_body u st) = None"
  by (auto simp: loop_body_def sendError_def split: ProcessEvent.splits option.splits)

text \<open>Which updates create a step, and how many.\<close>

lemma loop_body_step_count:
  "steps_created (calls (loop_body u st)) =
     steps_created (calls st) +
     (if (Event u = ProcessStart \<and> ongoingSteps st (Phase u) = None)
         \<or> (Event u \<noteq> ProcessStart \<and> Name (Component u) \<noteq> []
             \<and> ongoingSteps st (Phase u) \<noteq> None)
      then 1 else 0)"
  by (auto simp: loop_body_def renderStartEvent_def renderStopEvent_def Let_def
      split: ProcessEvent.splits option.splits)

section \<open>Facts about the controller\<close>

subsection \<open>One goroutine on one channel\<close>

lemma Start_serving:
  "fst (Start (new_ui sink r)) = 0 \<and> serving (snd (Start (new_ui sink r)))
   \<and> settled 0 (snd (Start (new_ui sink r))) = fresh sink
   \<and> reader (snd (Start (new_ui sink r))) = r
   \<and> Errors (snd (Start (new_ui sink r))) = sink"
  by (simp add: Start_def new_ui_def sole_def serving_def settled_def view_def fresh_def)

lemma bind_sole:
  assumes "sole ui" and "goroutines ui = [g]"
  shows "range_updates 0 (defer_cancel 0 ui)
           = ui\<lparr>goroutines := [g\<lparr>cancels := Some 0, serves := Some 0\<rparr>]\<rparr>"
proof -
  have c: "cancels g = None \<or> cancels g = Some 0" and s: "serves g = None \<or> serves g = Some 0"
    and x: "ctxt ui = Some 0" "updates ui = Some 0"
    using assms by (auto simp: sole_def)
  have 1: "defer_cancel 0 ui = ui\<lparr>goroutines := [g\<lparr>cancels := Some 0\<rparr>]\<rparr>"
    using c assms(2) x by (auto simp: defer_cancel_def)
  show ?thesis
    unfolding 1 using s x by (auto simp: range_updates_def)
qed

lemma run_sole:
  assumes "sole ui" and "goroutines ui = [g]"
  shows "run 0 ui =
           leave_loop 0 (render_received 0
             (ui\<lparr>goroutines := [g\<lparr>cancels := Some 0, serves := Some 0\<rparr>]\<rparr>))"
  using assms bind_sole[OF assms] by (auto simp: run_def sole_def)

lemma run_idle:
  assumes "sole ui" and "goroutines ui = [g]" and "chans ui = [b]" and "received g = None"
  shows "run 0 ui =
           (if b then ui\<lparr>ctxs := [True],
                         goroutines := [g\<lparr>cancels := Some 0, serves := Some 0, exited := True\<rparr>]\<rparr>
            else ui\<lparr>goroutines := [g\<lparr>cancels := Some 0, serves := Some 0\<rparr>]\<rparr>)"
  unfolding run_sole[OF assms(1,2)] using assms
  by (simp add: render_received_def leave_loop_def sole_def Let_def)

lemma run_stuck:
  assumes "sole ui" and "goroutines ui = [g]" and "chans ui = [b]" and "received g = Some u"
    and "errs (loop_body u (view ui g)) \<noteq> Errors ui" and "\<not> reader ui"
  shows "run 0 ui =
           ui\<lparr>terminal := calls (loop_body u (view ui g)),
              goroutines := [g\<lparr>cancels := Some 0, serves := Some 0, received := None,
                               steps := ongoingSteps (loop_body u (view ui g)),
                               stuck := True\<rparr>]\<rparr>"
  unfolding run_sole[OF assms(1,2)] using assms
  by (simp add: render_received_def leave_loop_def sole_def view_def Let_def)

lemma run_render:
  assumes "sole ui" and "goroutines ui = [g]" and "chans ui = [b]" and "received g = Some u"
    and "errs (loop_body u (view ui g)) = Errors ui \<or> reader ui"
  shows "run 0 ui =
           (if b then ui\<lparr>Errors := errs (loop_body u (view ui g)),
                         terminal := calls (loop_body u (view ui g)),
                         ctxs := [True],
                         goroutines := [g\<lparr>cancels := Some 0, serves := Some 0, received := None,
                               steps := ongoingSteps (loop_body u (view ui g)),
                               exited := True\<rparr>]\<rparr>
            else ui\<lparr>Errors := errs (loop_body u (view ui g)),
                    terminal := calls (loop_body u (view ui g)),
                    goroutines := [g\<lparr>cancels := Some 0, serves := Some 0, received := None,
                               steps := ongoingSteps (loop_body u (view ui g))\<rparr>]\<rparr>)"
  unfolding run_sole[OF assms(1,2)] using assms
  by (auto simp: render_received_def leave_loop_def sole_def view_def Let_def)

lemma serving_obtain:
  assumes "serving ui"
  obtains g where "goroutines ui = [g]" "sole ui" "chans ui = [False]" "\<not> stopped ui"
    "\<not> exited g" "\<not> stuck g"
  using assms by (auto simp: serving_def sole_def)

lemma send_serving:
  assumes "serving ui" and "send 0 u 0 ui = Returns ui'"
  shows "serving ui' \<and> settled 0 ui' = loop_body u (settled 0 ui) \<and> reader ui' = reader ui"
proof -
  from assms(1) obtain g where g: "goroutines ui = [g]" "sole ui" "chans ui = [False]"
      "\<not> stopped ui" "\<not> exited g" "\<not> stuck g"
    by (rule serving_obtain)
  show ?thesis
  proof (cases "received g")
    case None
    have r: "run 0 ui = ui\<lparr>goroutines := [g\<lparr>cancels := Some 0, serves := Some 0\<rparr>]\<rparr>"
      using run_idle[OF g(2,1,3) None] by simp
    show ?thesis
      using assms(2) g None unfolding send_def r
      by (auto simp: serving_def sole_def settled_def view_def)
  next
    case (Some u0)
    show ?thesis
    proof (cases "errs (loop_body u0 (view ui g)) \<noteq> Errors ui \<and> \<not> reader ui")
      case True
      have "run 0 ui =
           ui\<lparr>terminal := calls (loop_body u0 (view ui g)),
              goroutines := [g\<lparr>cancels := Some 0, serves := Some 0, received := None,
                               steps := ongoingSteps (loop_body u0 (view ui g)),
                               stuck := True\<rparr>]\<rparr>"
        using run_stuck[OF g(2,1,3) Some] True by simp
      then show ?thesis
        using assms(2) g unfolding send_def by simp
    next
      case False
      have r: "run 0 ui = ui\<lparr>Errors := errs (loop_body u0 (view ui g)),
                    terminal := calls (loop_body u0 (view ui g)),
                    goroutines := [g\<lparr>cancels := Some 0, serves := Some 0, received := None,
                               steps := ongoingSteps (loop_body u0 (view ui g))\<rparr>]\<rparr>"
        using run_render[OF g(2,1,3) Some] False by auto
      show ?thesis
        using assms(2) g Some unfolding send_def r
        by (auto simp: serving_def sole_def settled_def view_def loop_eta)
    qed
  qed
qed

lemma send_serving_live:
  assumes "serving ui" and "reader ui \<or> Errors ui = None"
  shows "\<exists>ui'. send 0 u 0 ui = Returns ui' \<and> (reader ui' \<or> Errors ui' = None)"
proof -
  from assms(1) obtain g where g: "goroutines ui = [g]" "sole ui" "chans ui = [False]"
      "\<not> stopped ui" "\<not> exited g" "\<not> stuck g"
    by (rule serving_obtain)
  show ?thesis
  proof (cases "received g")
    case None
    have r: "run 0 ui = ui\<lparr>goroutines := [g\<lparr>cancels := Some 0, serves := Some 0\<rparr>]\<rparr>"
      using run_idle[OF g(2,1,3) None] by simp
    show ?thesis
      using assms(2) g None unfolding send_def r by auto
  next
    case (Some u0)
    have e: "errs (loop_body u0 (view ui g)) = Errors ui \<or> reader ui"
      using assms(2) errs_loop_body_None[of "view ui g" u0] by (auto simp: view_def)
    have r: "run 0 ui = ui\<lparr>Errors := errs (loop_body u0 (view ui g)),
                    terminal := calls (loop_body u0 (view ui g)),
                    goroutines := [g\<lparr>cancels := Some 0, serves := Some 0, received := None,
                               steps := ongoingSteps (loop_body u0 (view ui g))\<rparr>]\<rparr>"
      using run_render[OF g(2,1,3) Some e] by simp
    show ?thesis
      using assms(2) g Some e unfolding send_def r by auto
  qed
qed

lemma Stop_serving:
  assumes "serving ui" and "Stop ui = Returns ui'"
  shows "terminal ui' = calls (settled 0 ui) \<and> Errors ui' = errs (settled 0 ui)
         \<and> pending ui' = 0"
proof -
  from assms(1) obtain g where g: "goroutines ui = [g]" "sole ui" "chans ui = [False]"
      "\<not> stopped ui" "\<not> exited g" "\<not> stuck g"
    by (rule serving_obtain)
  define ui1 where "ui1 = ui\<lparr>chans := [True], stopped := True\<rparr>"
  have s1: "sole ui1" "goroutines ui1 = [g]" "chans ui1 = [True]"
    using g by (auto simp: ui1_def sole_def)
  have x: "ctxt ui1 = Some 0" "ctxs ui1 = [False]" "updates ui = Some 0"
    using g by (auto simp: ui1_def sole_def)
  have st: "Stop ui = wait_done [] (run 0 ui1)"
    using g x by (simp add: Stop_def ui1_def)
  show ?thesis
  proof (cases "received g")
    case None
    have r: "run 0 ui1 = ui1\<lparr>ctxs := [True],
                         goroutines := [g\<lparr>cancels := Some 0, serves := Some 0, exited := True\<rparr>]\<rparr>"
      using run_idle[OF s1 None] by simp
    show ?thesis
      using assms(2) g None x unfolding st r
      by (auto simp: ui1_def settled_def view_def pending_def)
  next
    case (Some u0)
    have v: "view ui1 g = view ui g"
      by (simp add: ui1_def view_def)
    show ?thesis
    proof (cases "errs (loop_body u0 (view ui g)) \<noteq> Errors ui \<and> \<not> reader ui")
      case True
      have r: "run 0 ui1 =
           ui1\<lparr>terminal := calls (loop_body u0 (view ui1 g)),
              goroutines := [g\<lparr>cancels := Some 0, serves := Some 0, received := None,
                               steps := ongoingSteps (loop_body u0 (view ui1 g)),
                               stuck := True\<rparr>]\<rparr>"
        using run_stuck[OF s1 Some] True v by (simp add: ui1_def)
      show ?thesis
        using assms(2) x unfolding st r by simp
    next
      case False
      have r: "run 0 ui1 = ui1\<lparr>Errors := errs (loop_body u0 (view ui1 g)),
                         terminal := calls (loop_body u0 (view ui1 g)),
                         ctxs := [True],
                         goroutines := [g\<lparr>cancels := Some 0, serves := Some 0, received := None,
                               steps := ongoingSteps (loop_body u0 (view ui1 g)),
                               exited := True\<rparr>]\<rparr>"
        using run_render[OF s1 Some] False v by (auto simp: ui1_def)
      show ?thesis
        using assms(2) g Some x v unfolding st r
        by (auto simp: settled_def pending_def ui1_def)
    qed
  qed
qed

lemma Stop_serving_live:
  assumes "serving ui" and "reader ui \<or> Errors ui = None"
  shows "\<exists>ui'. Stop ui = Returns ui'"
proof -
  from assms(1) obtain g where g: "goroutines ui = [g]" "sole ui" "chans ui = [False]"
      "\<not> stopped ui" "\<not> exited g" "\<not> stuck g"
    by (rule serving_obtain)
  define ui1 where "ui1 = ui\<lparr>chans := [True], stopped := True\<rparr>"
  have s1: "sole ui1" "goroutines ui1 = [g]" "chans ui1 = [True]"
    using g by (auto simp: ui1_def sole_def)
  have x: "ctxt ui1 = Some 0" "ctxs ui1 = [False]" "updates ui = Some 0"
    using g by (auto simp: ui1_def sole_def)
  have st: "Stop ui = wait_done [] (run 0 ui1)"
    using g x by (simp add: Stop_def ui1_def)
  show ?thesis
  proof (cases "received g")
    case None
    have r: "run 0 ui1 = ui1\<lparr>ctxs := [True],
                         goroutines := [g\<lparr>cancels := Some 0, serves := Some 0, exited := True\<rparr>]\<rparr>"
      using run_idle[OF s1 None] by simp
    show ?thesis
      using x unfolding st r by simp
  next
    case (Some u0)
    have e: "errs (loop_body u0 (view ui1 g)) = Errors ui1 \<or> reader ui1"
      using assms(2) errs_loop_body_None[of "view ui1 g" u0] by (auto simp: view_def ui1_def)
    have r: "run 0 ui1 = ui1\<lparr>Errors := errs (loop_body u0 (view ui1 g)),
                         terminal := calls (loop_body u0 (view ui1 g)),
                         ctxs := [True],
                         goroutines := [g\<lparr>cancels := Some 0, serves := Some 0, received := None,
                               steps := ongoingSteps (loop_body u0 (view ui1 g)),
                               exited := True\<rparr>]\<rparr>"
      using run_render[OF s1 Some e] by simp
    show ?thesis
      using x unfolding st r by simp
  qed
qed

lemma submit_serving:
  assumes "serving ui" and "submit 0 0 us ui = Returns ui'"
  shows "serving ui' \<and> settled 0 ui' = consume us (settled 0 ui) \<and> reader ui' = reader ui"
  using assms
proof (induction us arbitrary: ui)
  case Nil
  then show ?case by simp
next
  case (Cons u us)
  from Cons.prems(2) obtain ui1 where 1: "send 0 u 0 ui = Returns ui1"
    and 2: "submit 0 0 us ui1 = Returns ui'"
    by (cases "send 0 u 0 ui") auto
  from send_serving[OF Cons.prems(1) 1]
  have 3: "serving ui1" "settled 0 ui1 = loop_body u (settled 0 ui)" "reader ui1 = reader ui"
    by auto
  from Cons.IH[OF 3(1) 2] 3 show ?case by simp
qed

lemma submit_serving_live:
  assumes "serving ui" and "reader ui \<or> Errors ui = None"
  shows "\<exists>ui'. submit 0 0 us ui = Returns ui' \<and> serving ui' \<and> (reader ui' \<or> Errors ui' = None)"
  using assms
proof (induction us arbitrary: ui)
  case Nil
  then show ?case by simp
next
  case (Cons u us)
  from send_serving_live[OF Cons.prems, of u] obtain ui1 where
    1: "send 0 u 0 ui = Returns ui1" "reader ui1 \<or> Errors ui1 = None"
    by blast
  from send_serving[OF Cons.prems(1) 1(1)] have 2: "serving ui1"
    by simp
  from Cons.IH[OF 2 1(2)] 1(1) show ?case by simp
qed

lemma session_safe:
  assumes "session sink r us = Returns ui'"
  shows "terminal ui' = calls (consume us (fresh sink))
       \<and> Errors ui' = errs (consume us (fresh sink)) \<and> pending ui' = 0"
proof -
  define ui where "ui = snd (Start (new_ui sink r))"
  have s: "Start (new_ui sink r) = (0, ui)" "serving ui" "settled 0 ui = fresh sink"
    using Start_serving[of sink r] by (simp_all add: ui_def prod_eq_iff)
  from assms obtain ui1 where 1: "submit 0 0 us ui = Returns ui1" and 2: "Stop ui1 = Returns ui'"
    unfolding session_def s by (cases "submit 0 0 us ui") auto
  from submit_serving[OF s(2) 1] have 3: "serving ui1" "settled 0 ui1 = consume us (fresh sink)"
    using s(3) by auto
  from Stop_serving[OF 3(1) 2] 3(2) show ?thesis by simp
qed

lemma session_live:
  assumes "r \<or> sink = None"
  shows "\<exists>ui'. session sink r us = Returns ui'"
proof -
  define ui where "ui = snd (Start (new_ui sink r))"
  have s: "Start (new_ui sink r) = (0, ui)" "serving ui" "reader ui = r" "Errors ui = sink"
    using Start_serving[of sink r] by (simp_all add: ui_def prod_eq_iff)
  from submit_serving_live[OF s(2), of us] assms s(3,4) obtain ui1 where
    1: "submit 0 0 us ui = Returns ui1" "serving ui1" "reader ui1 \<or> Errors ui1 = None"
    by auto
  from Stop_serving_live[OF 1(2,3)] obtain ui' where "Stop ui1 = Returns ui'"
    by blast
  then show ?thesis
    unfolding session_def s using 1(1) by simp
qed

subsection \<open>The flag stopped\<close>

lemma stopped_defer_cancel [simp]: "stopped (defer_cancel j ui) = stopped ui"
  by (simp add: defer_cancel_def)

lemma stopped_range_updates [simp]: "stopped (range_updates j ui) = stopped ui"
  by (simp add: range_updates_def)

lemma stopped_render_received [simp]: "stopped (render_received j ui) = stopped ui"
  by (simp add: render_received_def Let_def split: option.splits)

lemma stopped_leave_loop [simp]: "stopped (leave_loop j ui) = stopped ui"
  by (simp add: leave_loop_def Let_def split: option.splits)

lemma run_stopped: "stopped (run j ui) = stopped ui"
  by (simp add: run_def)

lemma wait_done_stopped: "wait_done js ui = Returns ui' \<Longrightarrow> stopped ui' = stopped ui"
proof (induction js arbitrary: ui)
  case Nil
  then show ?case by (auto split: option.splits if_splits)
next
  case (Cons j js)
  show ?case
  proof (cases "ctxt ui")
    case None
    with Cons.prems show ?thesis by simp
  next
    case (Some c)
    show ?thesis
    proof (cases "c < length (ctxs ui) \<and> ctxs ui ! c")
      case True
      with Cons.prems Some show ?thesis by auto
    next
      case False
      with Cons.prems Some have "wait_done js (run j ui) = Returns ui'" by auto
      from Cons.IH[OF this] show ?thesis by (simp add: run_stopped)
    qed
  qed
qed

section \<open>The claims\<close>

subsection \<open>Phase updates\<close>

text \<open>
  C1 (as amended). When a terminal update of phase \<open>P\<close> without a component is
  processed while \<open>P\<close> has a step in the map, the loop marks that step (\<open>Success\<close>
  for \<open>ProcessFinished\<close>, \<open>Failure\<close> with a phase-failure error otherwise) and
  leaves the map as it is: the entry of \<open>P\<close> stays. A later \<open>ProcessStart\<close> of \<open>P\<close>
  is therefore answered with the illegal-state error and opens no step.
\<close>

theorem phase_stop_keeps_entry:
  assumes "Name (Component u) = []"
    and "Event u \<noteq> ProcessStart" and "Event u \<noteq> ProcessRunning"
    and "ongoingSteps st (Phase u) = Some s"
    and "Event v = ProcessStart" and "Phase v = Phase u"
  shows "loop_body u st =
           st\<lparr>calls := calls st @ [if Event u = ProcessFinished then Success s else Failure s],
              errs := (if Event u = ProcessFinished then errs st
                       else map_option (\<lambda>es. es @ [PhaseFailed (Phase u) (Event u)]) (errs st))\<rparr>
       \<and> ongoingSteps (loop_body u st) = ongoingSteps st
       \<and> loop_body v (loop_body u st) =
           (loop_body u st)\<lparr>errs := map_option (\<lambda>es. es @ [StartStepExists (Phase u)])
                                      (errs (loop_body u st))\<rparr>"
  using assms
  by (auto simp: loop_body_def renderStopEvent_def renderStartEvent_def rendered_def
      sendError_def split: option.splits ProcessEvent.splits)

theorem phase_stop_keeps_entry_witness:
  "Name (Component (phaseUpdate ProcessFinished InstallComponents)) = []
   \<and> Event (phaseUpdate ProcessFinished InstallComponents) \<noteq> ProcessStart
   \<and> Event (phaseUpdate ProcessFinished InstallComponents) \<noteq> ProcessRunning
   \<and> ongoingSteps (consume [phaseUpdate ProcessStart InstallComponents] (fresh (Some [])))
        (Phase (phaseUpdate ProcessFinished InstallComponents)) = Some 0
   \<and> Event (phaseUpdate ProcessStart InstallComponents) = ProcessStart
   \<and> Phase (phaseUpdate ProcessStart InstallComponents)
        = Phase (phaseUpdate ProcessFinished InstallComponents)
   \<and> calls (loop_body (phaseUpdate ProcessFinished InstallComponents)
        (consume [phaseUpdate ProcessStart InstallComponents] (fresh (Some []))))
        = [NewStep ''Deploying Kyma'', Success 0]
   \<and> ongoingSteps (loop_body (phaseUpdate ProcessFinished InstallComponents)
        (consume [phaseUpdate ProcessStart InstallComponents] (fresh (Some []))))
        InstallComponents = Some 0
   \<and> errs (loop_body (phaseUpdate ProcessStart InstallComponents)
        (loop_body (phaseUpdate ProcessFinished InstallComponents)
          (consume [phaseUpdate ProcessStart InstallComponents] (fresh (Some [])))))
        = Some [StartStepExists InstallComponents]"
  using phase_stop_keeps_entry
    [of "phaseUpdate ProcessFinished InstallComponents"
        "consume [phaseUpdate ProcessStart InstallComponents] (fresh (Some []))" 0
        "phaseUpdate ProcessStart InstallComponents"]
  by (simp add: render_defs)

text \<open>
  C1 as stated fails: after start and finish of \<open>InstallComponents\<close> the entry of
  the phase is still in the map, and the next start of the phase creates no step and
  yields the illegal-state error.
\<close>

theorem restart_after_finish_rejected:
  "ongoingSteps
     (consume [phaseUpdate ProcessStart InstallComponents,
               phaseUpdate ProcessFinished InstallComponents] (fresh (Some [])))
     InstallComponents = Some 0
   \<and> calls
     (consume [phaseUpdate ProcessStart InstallComponents,
               phaseUpdate ProcessFinished InstallComponents,
               phaseUpdate ProcessStart InstallComponents] (fresh (Some [])))
     = [NewStep ''Deploying Kyma'', Success 0]
   \<and> errs
     (consume [phaseUpdate ProcessStart InstallComponents,
               phaseUpdate ProcessFinished InstallComponents,
               phaseUpdate ProcessStart InstallComponents] (fresh (Some [])))
     = Some [StartStepExists InstallComponents]"
  by (simp add: render_defs)

text \<open>
  C5. A \<open>ProcessStart\<close> for a phase that has a step in the map returns the
  illegal-state error, which the loop sends once to the error channel (when there is
  one); it creates no step and changes neither the map nor the terminal. The step
  recorded for the phase stays the same over every further sequence of updates, and
  over any sequence of updates the starts of one phase create one step at most: no
  phase ever has two steps.
\<close>

theorem second_start_rejected:
  assumes "Event u = ProcessStart" and "ongoingSteps st (Phase u) = Some s"
  shows "renderStartEvent u (ongoingSteps st) (calls st) =
           (Some (StartStepExists (Phase u)), ongoingSteps st, calls st)
       \<and> loop_body u st =
           st\<lparr>errs := map_option (\<lambda>es. es @ [StartStepExists (Phase u)]) (errs st)\<rparr>
       \<and> ongoingSteps (consume us (loop_body u st)) (Phase u) = Some s
       \<and> phase_steps P vs st' \<le> 1"
  using assms phase_steps_le_one[of P vs st']
  by (auto simp: loop_body_def renderStartEvent_def rendered_def sendError_def
      consume_keeps_entry split: option.splits)

theorem second_start_rejected_witness:
  "Event (phaseUpdate ProcessStart InstallComponents) = ProcessStart
   \<and> ongoingSteps (consume [phaseUpdate ProcessStart InstallComponents] (fresh (Some [])))
        (Phase (phaseUpdate ProcessStart InstallComponents)) = Some 0
   \<and> calls (loop_body (phaseUpdate ProcessStart InstallComponents)
        (consume [phaseUpdate ProcessStart InstallComponents] (fresh (Some []))))
        = [NewStep ''Deploying Kyma'']
   \<and> errs (loop_body (phaseUpdate ProcessStart InstallComponents)
        (consume [phaseUpdate ProcessStart InstallComponents] (fresh (Some []))))
        = Some [StartStepExists InstallComponents]
   \<and> phase_steps InstallComponents
        [phaseUpdate ProcessStart InstallComponents, phaseUpdate ProcessStart InstallComponents]
        (fresh (Some [])) \<le> 1"
  using second_start_rejected
    [of "phaseUpdate ProcessStart InstallComponents"
        "consume [phaseUpdate ProcessStart InstallComponents] (fresh (Some []))" 0 "[]"
        InstallComponents
        "[phaseUpdate ProcessStart InstallComponents, phaseUpdate ProcessStart InstallComponents]"
        "fresh (Some [])"]
  by (simp add: render_defs)

text \<open>
  C7. A terminal update of phase \<open>P\<close> without a component, processed while \<open>P\<close> has
  the step \<open>s\<close> in the map: for \<open>ProcessFinished\<close> the loop calls \<open>Success\<close> on \<open>s\<close>
  and sends no error; for every other event value it calls \<open>Failure\<close> on \<open>s\<close> and
  sends exactly one error, which carries the phase and the raw event value, to the
  error channel.
\<close>

theorem phase_stop_rendered:
  assumes "Name (Component u) = []"
    and "Event u \<noteq> ProcessStart" and "Event u \<noteq> ProcessRunning"
    and "ongoingSteps st (Phase u) = Some s"
  shows "loop_body u st =
           (if Event u = ProcessFinished
            then st\<lparr>calls := calls st @ [Success s]\<rparr>
            else st\<lparr>calls := calls st @ [Failure s],
                    errs := map_option (\<lambda>es. es @ [PhaseFailed (Phase u) (Event u)]) (errs st)\<rparr>)"
  using assms
  by (auto simp: loop_body_def renderStopEvent_def rendered_def sendError_def
      split: option.splits ProcessEvent.splits)

theorem phase_stop_rendered_witness:
  "Name (Component (phaseUpdate (OtherEvent ''ProcessExecutionFailure'') InstallComponents)) = []
   \<and> Event (phaseUpdate (OtherEvent ''ProcessExecutionFailure'') InstallComponents)
        \<noteq> ProcessStart
   \<and> Event (phaseUpdate (OtherEvent ''ProcessExecutionFailure'') InstallComponents)
        \<noteq> ProcessRunning
   \<and> ongoingSteps (consume [phaseUpdate ProcessStart InstallComponents] (fresh (Some [])))
        (Phase (phaseUpdate (OtherEvent ''ProcessExecutionFailure'') InstallComponents)) = Some 0
   \<and> calls (loop_body (phaseUpdate (OtherEvent ''ProcessExecutionFailure'') InstallComponents)
        (consume [phaseUpdate ProcessStart InstallComponents] (fresh (Some []))))
        = [NewStep ''Deploying Kyma'', Failure 0]
   \<and> errs (loop_body (phaseUpdate (OtherEvent ''ProcessExecutionFailure'') InstallComponents)
        (consume [phaseUpdate ProcessStart InstallComponents] (fresh (Some []))))
        = Some [PhaseFailed InstallComponents (OtherEvent ''ProcessExecutionFailure'')]"
  using phase_stop_rendered
    [of "phaseUpdate (OtherEvent ''ProcessExecutionFailure'') InstallComponents"
        "consume [phaseUpdate ProcessStart InstallComponents] (fresh (Some []))" 0]
  by (simp add: render_defs)

subsection \<open>Updates for a phase that has no step\<close>




subsection \<open>Component updates\<close>

text \<open>
  C8. An update with a component whose event is \<open>ProcessRunning\<close> or a terminal
  value, processed while its phase has the step \<open>s\<close> in the map: the loop creates
  exactly one step, labelled \<open>Deploying component\<close> followed by the component's name
  in single quotes, and closes it at once, with
  \<open>Failure\<close> and exactly one error naming the component when the status is
  \<open>StatusError\<close>, with \<open>Success\<close> and no error otherwise. The map is unchanged and
  the new step is not \<open>s\<close>, so the step of the phase is not touched.
\<close>

theorem component_event_rendered:
  assumes "st = consume us (fresh sink)"
    and "Name (Component u) \<noteq> []"
    and "Event u \<noteq> ProcessStart"
    and "ongoingSteps st (Phase u) = Some s"
  shows "loop_body u st =
           (if Status (Component u) = StatusError
            then st\<lparr>calls := calls st @ [NewStep (''Deploying component '' @ [CHR 0x27] @ Name (Component u) @ [CHR 0x27]),
                                         Failure (steps_created (calls st))],
                    errs := map_option (\<lambda>es. es @ [ComponentFailed (Name (Component u))]) (errs st)\<rparr>
            else st\<lparr>calls := calls st @ [NewStep (''Deploying component '' @ [CHR 0x27] @ Name (Component u) @ [CHR 0x27]),
                                         Success (steps_created (calls st))]\<rparr>)
       \<and> s < steps_created (calls st)"
proof -
  have "handles_bounded st"
    using assms(1) by (simp add: handles_bounded_fresh)
  then have "s < steps_created (calls st)"
    using assms(4) by (simp add: handles_bounded_def)
  moreover have "loop_body u st =
           (if Status (Component u) = StatusError
            then st\<lparr>calls := calls st @ [NewStep (''Deploying component '' @ [CHR 0x27] @ Name (Component u) @ [CHR 0x27]),
                                         Failure (steps_created (calls st))],
                    errs := map_option (\<lambda>es. es @ [ComponentFailed (Name (Component u))]) (errs st)\<rparr>
            else st\<lparr>calls := calls st @ [NewStep (''Deploying component '' @ [CHR 0x27] @ Name (Component u) @ [CHR 0x27]),
                                         Success (steps_created (calls st))]\<rparr>)"
    using assms(2-4)
    by (auto simp: loop_body_def renderStopEvent_def rendered_def sendError_def Let_def
        deployComponentMsg_def split: option.splits ProcessEvent.splits)
  ultimately show ?thesis by simp
qed

theorem component_event_rendered_witness:
  "consume [phaseUpdate ProcessStart InstallComponents] (fresh (Some []))
     = consume [phaseUpdate ProcessStart InstallComponents] (fresh (Some []))
   \<and> Name (Component (componentUpdate ProcessRunning InstallComponents ''core'' StatusError)) \<noteq> []
   \<and> Event (componentUpdate ProcessRunning InstallComponents ''core'' StatusError) \<noteq> ProcessStart
   \<and> ongoingSteps (consume [phaseUpdate ProcessStart InstallComponents] (fresh (Some [])))
        (Phase (componentUpdate ProcessRunning InstallComponents ''core'' StatusError)) = Some 0
   \<and> calls (loop_body (componentUpdate ProcessRunning InstallComponents ''core'' StatusError)
        (consume [phaseUpdate ProcessStart InstallComponents] (fresh (Some []))))
        = [NewStep ''Deploying Kyma'', NewStep (''Deploying component '' @ [CHR 0x27] @ ''core'' @ [CHR 0x27]), Failure 1]
   \<and> errs (loop_body (componentUpdate ProcessRunning InstallComponents ''core'' StatusError)
        (consume [phaseUpdate ProcessStart InstallComponents] (fresh (Some []))))
        = Some [ComponentFailed ''core'']"
  using component_event_rendered
    [of "consume [phaseUpdate ProcessStart InstallComponents] (fresh (Some []))"
        "[phaseUpdate ProcessStart InstallComponents]" "Some []"
        "componentUpdate ProcessRunning InstallComponents ''core'' StatusError" 0]
  by (simp add: render_defs)

text \<open>
  C10. A \<open>ProcessRunning\<close> update whose component name is empty is skipped by the
  consumer loop: the map of ongoing steps, the terminal (no step created, no step
  operation) and the error channel are all exactly as before.
\<close>

theorem heartbeat_skipped:
  "loop_body \<lparr>Event = ProcessRunning, Phase = p, Component = \<lparr>Name = [], Status = s\<rparr>\<rparr> st = st"
  by (simp add: loop_body_def)

subsection \<open>Start and Stop\<close>

text \<open>
  C2 (as amended). On a controller started once, for every sequence of updates
  submitted to the channel before \<open>Stop\<close> closes it: when \<open>Stop\<close> returns, every
  update has been rendered by the loop, in the order submitted, and none is held
  unrendered (the terminal and the error channel are those of the loop run over the
  whole sequence). \<open>Stop\<close> does return when the caller receives from the error channel
  or there is none. Rendering one update makes at most one call of \<open>NewStep\<close>:
  exactly one for a \<open>ProcessStart\<close> of a phase without a step in the map and for an
  update with a component, other than a \<open>ProcessStart\<close>, of a phase with a step in
  the map; none for every other update.
\<close>

theorem session_renders_every_update:
  "(returned (session sink r us) \<noteq> None \<longrightarrow>
       map_option terminal (returned (session sink r us)) = Some (calls (consume us (fresh sink)))
     \<and> map_option Errors (returned (session sink r us)) = Some (errs (consume us (fresh sink)))
     \<and> map_option pending (returned (session sink r us)) = Some 0)
   \<and> (r \<or> sink = None \<longrightarrow> returned (session sink r us) \<noteq> None)
   \<and> steps_created (calls (loop_body u st)) =
       steps_created (calls st) +
       (if (Event u = ProcessStart \<and> ongoingSteps st (Phase u) = None)
           \<or> (Event u \<noteq> ProcessStart \<and> Name (Component u) \<noteq> []
               \<and> ongoingSteps st (Phase u) \<noteq> None)
        then 1 else 0)"
proof (intro conjI impI)
  assume "returned (session sink r us) \<noteq> None"
  then obtain ui' where r: "session sink r us = Returns ui'"
    by (cases "session sink r us") auto
  from session_safe[OF r] r
  show "map_option terminal (returned (session sink r us)) = Some (calls (consume us (fresh sink)))"
    and "map_option Errors (returned (session sink r us)) = Some (errs (consume us (fresh sink)))"
    and "map_option pending (returned (session sink r us)) = Some 0"
    by simp_all
next
  assume "r \<or> sink = None"
  from session_live[OF this, of us] show "returned (session sink r us) \<noteq> None"
    by auto
next
  show "steps_created (calls (loop_body u st)) =
       steps_created (calls st) +
       (if (Event u = ProcessStart \<and> ongoingSteps st (Phase u) = None)
           \<or> (Event u \<noteq> ProcessStart \<and> Name (Component u) \<noteq> []
               \<and> ongoingSteps st (Phase u) \<noteq> None)
        then 1 else 0)"
    by (rule loop_body_step_count)
qed

theorem session_renders_every_update_witness:
  "returned (session (Some []) True
      [phaseUpdate ProcessStart InstallComponents,
       phaseUpdate (OtherEvent ''ProcessExecutionFailure'') InstallComponents]) \<noteq> None
   \<and> map_option terminal (returned (session (Some []) True
      [phaseUpdate ProcessStart InstallComponents,
       phaseUpdate (OtherEvent ''ProcessExecutionFailure'') InstallComponents]))
     = Some [NewStep ''Deploying Kyma'', Failure 0]
   \<and> map_option Errors (returned (session (Some []) True
      [phaseUpdate ProcessStart InstallComponents,
       phaseUpdate (OtherEvent ''ProcessExecutionFailure'') InstallComponents]))
     = Some (Some [PhaseFailed InstallComponents (OtherEvent ''ProcessExecutionFailure'')])
   \<and> map_option pending (returned (session (Some []) True
      [phaseUpdate ProcessStart InstallComponents,
       phaseUpdate (OtherEvent ''ProcessExecutionFailure'') InstallComponents]))
     = Some 0
   \<and> steps_created (calls (loop_body (phaseUpdate ProcessStart InstallComponents)
        (fresh (Some [])))) = 1"
  using session_renders_every_update
    [of "Some []" True
        "[phaseUpdate ProcessStart InstallComponents,
          phaseUpdate (OtherEvent ''ProcessExecutionFailure'') InstallComponents]"
        "phaseUpdate ProcessStart InstallComponents" "fresh (Some [])"]
  by (simp add: ui_defs render_defs)

text \<open>
  C2 as stated fails twice. The start and the finish of a phase are two updates, both
  rendered before \<open>Stop\<close> returns, and together they create one step. And on a
  controller started twice an update can be unrendered when \<open>Stop\<close> returns: the
  first goroutine, scheduled only after the second \<open>Start\<close>, ranges over the second
  channel and takes the update; \<open>Stop\<close> closes the channel, the second goroutine
  leaves its loop and cancels the context, and \<open>Stop\<close> returns while the first
  goroutine still holds the update and the terminal is empty.
\<close>

theorem start_finish_creates_one_step:
  "map_option terminal
     (returned (session (Some []) True
        [phaseUpdate ProcessStart InstallComponents,
         phaseUpdate ProcessFinished InstallComponents]))
     = Some [NewStep ''Deploying Kyma'', Success 0]
   \<and> steps_created [NewStep ''Deploying Kyma'', Success 0]
     \<noteq> length [phaseUpdate ProcessStart InstallComponents,
               phaseUpdate ProcessFinished InstallComponents]
   \<and> map_option pending
     (returned (and_then
        (send 1 (phaseUpdate ProcessStart InstallComponents) 0
           (snd (Start (snd (Start (new_ui (Some []) True))))))
        Stop)) = Some 1
   \<and> map_option terminal
     (returned (and_then
        (send 1 (phaseUpdate ProcessStart InstallComponents) 0
           (snd (Start (snd (Start (new_ui (Some []) True))))))
        Stop)) = Some []"
  by (simp add: ui_defs render_defs)

text \<open>
  C3 (as amended). \<open>Stop\<close> on a controller on which \<open>Start\<close> was never called has no
  rendering effect, but it does not return: closing the nil channel panics, and the
  panic leaves the controller as it was, with nothing on the terminal and no update
  held.
\<close>

theorem stop_unstarted_no_effect:
  "Stop (new_ui sink r) = Panics ''close of nil channel'' (new_ui sink r)
   \<and> terminal (new_ui sink r) = [] \<and> pending (new_ui sink r) = 0"
  by (simp add: Stop_def new_ui_def pending_def)

text \<open>C3 as stated fails: \<open>Stop\<close> on the zero value panics and does not return.\<close>

theorem stop_unstarted_panics:
  "Stop (new_ui (Some []) True) = Panics ''close of nil channel'' (new_ui (Some []) True)
   \<and> returned (Stop (new_ui (Some []) True)) = None"
  by (simp add: Stop_def new_ui_def)



text \<open>
  C9. \<open>Stop\<close> is idempotent: once a call of \<open>Stop\<close> has returned, the controller is
  stopped, and a further call returns at once with the controller exactly as it was;
  it neither panics nor blocks.
\<close>

theorem stop_idempotent:
  "Stop ui = Returns ui' \<Longrightarrow> stopped ui' \<and> Stop ui' = Returns ui'"
proof -
  assume a: "Stop ui = Returns ui'"
  have "stopped ui'"
  proof (cases "stopped ui")
    case True
    with a show ?thesis by (simp add: Stop_def)
  next
    case False
    show ?thesis
    proof (cases "updates ui")
      case None
      with a False show ?thesis by (simp add: Stop_def)
    next
      case (Some ch)
      show ?thesis
      proof (cases "length (chans ui) \<le> ch \<or> chans ui ! ch")
        case True
        with a \<open>\<not> stopped ui\<close> Some show ?thesis by (auto simp: Stop_def split: if_splits)
      next
        case False
        with a \<open>\<not> stopped ui\<close> Some
        have "wait_done (newest_first (length (goroutines ui)))
                (ui\<lparr>chans := (chans ui)[ch := True], stopped := True\<rparr>) = Returns ui'"
          by (simp add: Stop_def)
        from wait_done_stopped[OF this] show ?thesis by simp
      qed
    qed
  qed
  then show ?thesis by (simp add: Stop_def)
qed

theorem stop_idempotent_witness:
  "Stop (snd (Start (new_ui None False)))
     = Returns \<lparr>Errors = None, reader = False, terminal = [], ctxt = Some 0, updates = Some 0,
                stopped = True, chans = [True], ctxs = [True],
                goroutines = [\<lparr>cancels = Some 0, serves = Some 0, received = None,
                               steps = Map.empty, stuck = False, exited = True\<rparr>]\<rparr>
   \<and> Stop \<lparr>Errors = None, reader = False, terminal = [], ctxt = Some 0, updates = Some 0,
                stopped = True, chans = [True], ctxs = [True],
                goroutines = [\<lparr>cancels = Some 0, serves = Some 0, received = None,
                               steps = Map.empty, stuck = False, exited = True\<rparr>]\<rparr>
     = Returns \<lparr>Errors = None, reader = False, terminal = [], ctxt = Some 0, updates = Some 0,
                stopped = True, chans = [True], ctxs = [True],
                goroutines = [\<lparr>cancels = Some 0, serves = Some 0, received = None,
                               steps = Map.empty, stuck = False, exited = True\<rparr>]\<rparr>"
  using stop_idempotent [of "snd (Start (new_ui None False))"
      "\<lparr>Errors = None, reader = False, terminal = [], ctxt = Some 0, updates = Some 0,
                stopped = True, chans = [True], ctxs = [True],
                goroutines = [\<lparr>cancels = Some 0, serves = Some 0, received = None,
                               steps = Map.empty, stuck = False, exited = True\<rparr>]\<rparr>"]
  by (simp add: ui_defs)

end
